theory Spec2Isabelle
  imports Main
begin

section \<open>Strings\<close>

text \<open>
  A Python \<open>str\<close> is modelled as a \<open>string\<close>: the list of the bytes of its UTF-8
  encoding, so an ASCII character is one char and a character outside ASCII is several
  chars, all of them with bit 7 set. The characters that \<open>token.py\<close> strips, deletes,
  splits at or compares with are ASCII, and an ASCII byte never occurs inside the
  encoding of another character, so these operations act on the bytes as they act on
  the characters. The two quoting characters are named, since neither can be written
  inside a literal here: the backtick is \<open>CHR 0x60\<close> and the double quote \<open>CHR 0x22\<close>.
\<close>

definition backtick :: char where
  "backtick = CHR 0x60"

definition dquote :: char where
  "dquote = CHR 0x22"

text \<open>\<open>s.strip(chars)\<close>: every leading and every trailing char of \<open>s\<close> that is in
  \<open>chars\<close> is removed.\<close>

definition strip :: "string \<Rightarrow> string \<Rightarrow> string" where
  "strip chars s =
     rev (dropWhile (\<lambda>c. c \<in> set chars) (rev (dropWhile (\<lambda>c. c \<in> set chars) s)))"

text \<open>
  \<open>str.maketrans(x, y, z)\<close> builds a table: the chars of \<open>z\<close> map to \<open>None\<close> (deleted), the
  chars of \<open>x\<close> to the chars of \<open>y\<close> at the same place (a later pair replaces an earlier
  one). \<open>s.translate(table)\<close> keeps a char the table does not mention, drops one mapped to
  \<open>None\<close> and replaces the others. \<open>token.py\<close> calls \<open>maketrans\<close> with \<open>x\<close> and \<open>y\<close> empty.
\<close>

definition maketrans :: "string \<Rightarrow> string \<Rightarrow> string \<Rightarrow> (char \<rightharpoonup> char option)" where
  "maketrans x y z =
     (\<lambda>c. if c \<in> set z then Some None else map_option Some (map_of (rev (zip x y)) c))"

definition translate :: "(char \<rightharpoonup> char option) \<Rightarrow> string \<Rightarrow> string" where
  "translate table s =
     concat (map (\<lambda>c. case table c of
                          None \<Rightarrow> [c]
                        | Some None \<Rightarrow> []
                        | Some (Some d) \<Rightarrow> [d]) s)"

text \<open>
  \<open>s.upper()\<close>. On ASCII text the 26 lower-case letters go to their capitals and every
  other char stays. On text with a character outside ASCII Python applies the Unicode
  case mapping, which changes letters outside ASCII and can change the length; that
  mapping is not modelled, it is the parameter \<open>unicode_upper\<close> of \<open>upper\<close> and of every
  function that calls it.
\<close>

definition is_ascii :: "string \<Rightarrow> bool" where
  "is_ascii s = list_all (\<lambda>c. \<not> digit7 c) s"

definition upper_char :: "char \<Rightarrow> char" where
  "upper_char c =
     (case map_of (zip ''abcdefghijklmnopqrstuvwxyz'' ''ABCDEFGHIJKLMNOPQRSTUVWXYZ'') c of
        Some u \<Rightarrow> u
      | None \<Rightarrow> c)"

definition upper :: "(string \<Rightarrow> string) \<Rightarrow> string \<Rightarrow> string" where
  "upper unicode_upper s = (if is_ascii s then map upper_char s else unicode_upper s)"

text \<open>The chars \<open>" \n\t\r"\<close> that \<open>normalized\<close> deletes: space, line feed, tab, carriage
  return.\<close>

definition deleted_chars :: string where
  "deleted_chars = [CHR 0x20, CHR 0x0A, CHR 0x09, CHR 0x0D]"

text \<open>\<open>str.isspace\<close> for one ASCII char: what Python (and the spec's sentence on
  \<open>normalized\<close>) calls a whitespace character. This definition is the spec's notion; no
  function of \<open>token.py\<close> uses it.\<close>

definition isspace :: "char \<Rightarrow> bool" where
  "isspace c =
     (c \<in> set [CHR 0x09, CHR 0x0A, CHR 0x0B, CHR 0x0C, CHR 0x0D,
                CHR 0x1C, CHR 0x1D, CHR 0x1E, CHR 0x1F, CHR 0x20])"

text \<open>\<open>s.split(sep)\<close> for a one-char separator, and \<open>sep.join(parts)\<close>.\<close>

fun split_str :: "char \<Rightarrow> string \<Rightarrow> string list" where
  "split_str sep [] = [[]]"
| "split_str sep (c # cs) =
     (let r = split_str sep cs in if c = sep then [] # r else (c # hd r) # tl r)"

fun join_str :: "string \<Rightarrow> string list \<Rightarrow> string" where
  "join_str sep [] = []"
| "join_str sep [p] = p"
| "join_str sep (p # q # ps) = p @ sep @ join_str sep (q # ps)"

section \<open>The lexer's token\<close>

text \<open>
  \<open>sqlparse\<close> is a library outside this repository. Of its leaf token the constructor
  reads \<open>value\<close>, \<open>is_keyword\<close>, \<open>ttype\<close> and \<open>str(tok)\<close>, which for a leaf is its value. A
  token type is the tuple of names on its path from the root type (\<open>Token.Name\<close> is
  \<open>(Name,)\<close>), its \<open>parent\<close> the tuple without the last name, absent at the root; token
  types are interned, so \<open>is\<close> on them is equality of the paths.
\<close>

type_synonym tokentype = "string list"

definition parent :: "tokentype \<Rightarrow> tokentype option" where
  "parent t = (if t = [] then None else Some (butlast t))"

definition Name :: tokentype where
  "Name = [''Name'']"

definition Punctuation :: tokentype where
  "Punctuation = [''Punctuation'']"

definition Wildcard :: tokentype where
  "Wildcard = [''Wildcard'']"

definition Comment :: tokentype where
  "Comment = [''Comment'']"

definition Number_Integer :: tokentype where
  "Number_Integer = [''Literal'', ''Number'', ''Integer'']"

definition Number_Float :: tokentype where
  "Number_Float = [''Literal'', ''Number'', ''Float'']"

record Token =
  raw_value :: string
  raw_is_keyword :: bool
  ttype :: tokentype

section \<open>SQLToken and the sentinel\<close>

text \<open>
  Tokens are objects that refer to each other, so they live in a store: an address is a
  reference to a token, a link field holds \<open>Some\<close> address or \<open>None\<close> (Python's \<open>None\<close>).
  \<open>SQLToken\<close> defines neither \<open>__bool__\<close> nor \<open>__len__\<close>, so a reference to a token is
  always truthy and \<open>if self.previous_token:\<close> asks whether the link is not \<open>None\<close>.
  The field \<open>value\<close> of the class is \<open>value'\<close> here.
\<close>

type_synonym addr = nat

record SQLToken =
  position :: int
  value' :: string
  is_keyword :: bool
  is_name :: bool
  is_punctuation :: bool
  is_dot :: bool
  is_wildcard :: bool
  is_integer :: bool
  is_float :: bool
  is_comment :: bool
  is_left_parenthesis :: bool
  is_right_parenthesis :: bool
  last_keyword :: "string option"
  next_token :: "addr option"
  previous_token :: "addr option"
  subquery_level :: int
  is_in_nested_function :: bool
  is_subquery_start :: bool
  is_subquery_end :: bool
  is_with_query_start :: bool
  is_with_query_end :: bool
  is_with_columns_start :: bool
  is_with_columns_end :: bool
  is_nested_function_start :: bool
  is_nested_function_end :: bool
  is_column_definition_start :: bool
  is_column_definition_end :: bool

type_synonym heap = "addr \<Rightarrow> SQLToken"

text \<open>The module's global \<open>EmptyToken\<close> is a reference to one object, at address 0.\<close>

definition EmptyToken :: addr where
  "EmptyToken = 0"

text \<open>
  \<open>SQLToken.__init__(tok, index, subquery_level, last_keyword)\<close>, with
  \<open>_set_default_values\<close> (the branch \<open>tok is None\<close>) and \<open>_set_default_parenthesis_status\<close>
  (the last eleven fields of both branches) written out.
\<close>

definition SQLToken_init :: "Token option \<Rightarrow> int \<Rightarrow> int \<Rightarrow> string option \<Rightarrow> SQLToken" where
  "SQLToken_init tok index level keyword =
     (case tok of
        None \<Rightarrow>
          \<lparr> position = index,
            value' = [],
            is_keyword = False,
            is_name = False,
            is_punctuation = False,
            is_dot = False,
            is_wildcard = False,
            is_integer = False,
            is_float = False,
            is_comment = False,
            is_left_parenthesis = False,
            is_right_parenthesis = False,
            last_keyword = None,
            next_token = None,
            previous_token = None,
            subquery_level = 0,
            is_in_nested_function = False,
            is_subquery_start = False,
            is_subquery_end = False,
            is_with_query_start = False,
            is_with_query_end = False,
            is_with_columns_start = False,
            is_with_columns_end = False,
            is_nested_function_start = False,
            is_nested_function_end = False,
            is_column_definition_start = False,
            is_column_definition_end = False \<rparr>
      | Some t \<Rightarrow>
          \<lparr> position = index,
            value' = strip [dquote] (strip [backtick] (raw_value t)),
            is_keyword =
              (raw_is_keyword t \<or> (parent (ttype t) = Some Name \<and> ttype t \<noteq> Name)),
            is_name = (ttype t = Name),
            is_punctuation = (ttype t = Punctuation),
            is_dot = (raw_value t = ''.''),
            is_wildcard = (ttype t = Wildcard),
            is_integer = (ttype t = Number_Integer),
            is_float = (ttype t = Number_Float),
            is_comment = (ttype t = Comment \<or> parent (ttype t) = Some Comment),
            is_left_parenthesis = (raw_value t = ''(''),
            is_right_parenthesis = (raw_value t = '')''),
            last_keyword = keyword,
            next_token = Some EmptyToken,
            previous_token = Some EmptyToken,
            subquery_level = level,
            is_in_nested_function = False,
            is_subquery_start = False,
            is_subquery_end = False,
            is_with_query_start = False,
            is_with_query_end = False,
            is_with_columns_start = False,
            is_with_columns_end = False,
            is_nested_function_start = False,
            is_nested_function_end = False,
            is_column_definition_start = False,
            is_column_definition_end = False \<rparr>)"

text \<open>\<open>EmptyToken = SQLToken()\<close>: the object the global refers to, built with the
  defaults \<open>tok = None\<close>, \<open>index = -1\<close>, \<open>subquery_level = 0\<close>, \<open>last_keyword = None\<close>.\<close>

definition EmptyToken_object :: SQLToken where
  "EmptyToken_object = SQLToken_init None (- 1) 0 None"

text \<open>\<open>__str__\<close>, \<open>normalized\<close> and \<open>last_keyword_normalized\<close> read the token alone.\<close>

definition str_token :: "SQLToken \<Rightarrow> string" where
  "str_token self = strip [dquote] (value' self)"

definition normalized :: "(string \<Rightarrow> string) \<Rightarrow> SQLToken \<Rightarrow> string" where
  "normalized unicode_upper self =
     upper unicode_upper (translate (maketrans [] [] deleted_chars) (value' self))"

definition last_keyword_normalized :: "(string \<Rightarrow> string) \<Rightarrow> SQLToken \<Rightarrow> string" where
  "last_keyword_normalized unicode_upper self =
     (case last_keyword self of
        None \<Rightarrow> []
      | Some k \<Rightarrow>
          if k \<noteq> []
          then upper unicode_upper (translate (maketrans [] [] deleted_chars) k)
          else [])"

section \<open>Traversal\<close>

datatype error = AssertionError | AttributeError | RecursionError | ValueError string

text \<open>
  \<open>get_nth_previous(level)\<close>. The method calls itself once per hop, and every call
  takes a frame of the interpreter's stack: \<open>frames\<close> is the number of frames still free
  under the recursion limit when the call is made, and a call made when none is free
  raises \<open>RecursionError\<close>. The \<open>assert\<close> is the first statement of every call, also of
  the recursive ones.
\<close>

function get_nth_previous :: "nat \<Rightarrow> heap \<Rightarrow> addr \<Rightarrow> int \<Rightarrow> error + addr" where
  "get_nth_previous frames h self level =
     (if frames = 0 then Inl RecursionError
      else if \<not> level \<ge> 1 then Inl AssertionError
      else case previous_token (h self) of
             Some p \<Rightarrow>
               if level > 1 then get_nth_previous (frames - 1) h p (level - 1) else Inr p
           | None \<Rightarrow> Inr EmptyToken)"
  by pat_completeness auto
termination
  by (relation "measure (\<lambda>(frames, h, self, level). frames)") auto

declare get_nth_previous.simps [simp del]

text \<open>
  The values \<open>find_nearest_token\<close> compares: strings, booleans, integers, \<open>None\<close> and
  references to tokens. \<open>py_eq\<close> is Python's \<open>==\<close> on them: a boolean equals the integer
  0 or 1 it stands for, tokens are equal when they are the same object, values of
  different kinds are unequal. \<open>x in xs\<close> on a list is \<open>py_in\<close>.
\<close>

datatype pyval = PStr string | PBool bool | PInt int | PNone | PRef addr

fun py_eq :: "pyval \<Rightarrow> pyval \<Rightarrow> bool" where
  "py_eq (PStr a) (PStr b) = (a = b)"
| "py_eq (PBool a) (PBool b) = (a = b)"
| "py_eq (PInt a) (PInt b) = (a = b)"
| "py_eq (PBool a) (PInt b) = ((if a then 1 else 0) = b)"
| "py_eq (PInt a) (PBool b) = (a = (if b then 1 else 0))"
| "py_eq PNone PNone = True"
| "py_eq (PRef a) (PRef b) = (a = b)"
| "py_eq _ _ = False"

definition py_in :: "pyval \<Rightarrow> pyval list \<Rightarrow> bool" where
  "py_in x xs = list_ex (\<lambda>e. py_eq e x) xs"

text \<open>
  \<open>value_attribute\<close> names the attribute to compare. The selectable names are the
  attributes \<open>__init__\<close> stores on every token and the two properties that read the token
  alone; \<open>getattr_token\<close> is \<open>getattr\<close> on them. Here and below \<open>U\<close> is the parameter
  \<open>unicode_upper\<close> of \<open>upper\<close>.
\<close>

datatype attribute =
    Attr_position | Attr_value | Attr_is_keyword | Attr_is_name | Attr_is_punctuation
  | Attr_is_dot | Attr_is_wildcard | Attr_is_integer | Attr_is_float | Attr_is_comment
  | Attr_is_left_parenthesis | Attr_is_right_parenthesis | Attr_last_keyword
  | Attr_next_token | Attr_previous_token | Attr_subquery_level
  | Attr_is_in_nested_function | Attr_is_subquery_start | Attr_is_subquery_end
  | Attr_is_with_query_start | Attr_is_with_query_end | Attr_is_with_columns_start
  | Attr_is_with_columns_end | Attr_is_nested_function_start | Attr_is_nested_function_end
  | Attr_is_column_definition_start | Attr_is_column_definition_end
  | Attr_normalized | Attr_last_keyword_normalized

fun getattr_token :: "(string \<Rightarrow> string) \<Rightarrow> SQLToken \<Rightarrow> attribute \<Rightarrow> pyval" where
  "getattr_token U t Attr_position = PInt (position t)"
| "getattr_token U t Attr_value = PStr (value' t)"
| "getattr_token U t Attr_is_keyword = PBool (is_keyword t)"
| "getattr_token U t Attr_is_name = PBool (is_name t)"
| "getattr_token U t Attr_is_punctuation = PBool (is_punctuation t)"
| "getattr_token U t Attr_is_dot = PBool (is_dot t)"
| "getattr_token U t Attr_is_wildcard = PBool (is_wildcard t)"
| "getattr_token U t Attr_is_integer = PBool (is_integer t)"
| "getattr_token U t Attr_is_float = PBool (is_float t)"
| "getattr_token U t Attr_is_comment = PBool (is_comment t)"
| "getattr_token U t Attr_is_left_parenthesis = PBool (is_left_parenthesis t)"
| "getattr_token U t Attr_is_right_parenthesis = PBool (is_right_parenthesis t)"
| "getattr_token U t Attr_last_keyword =
     (case last_keyword t of None \<Rightarrow> PNone | Some k \<Rightarrow> PStr k)"
| "getattr_token U t Attr_next_token =
     (case next_token t of None \<Rightarrow> PNone | Some a \<Rightarrow> PRef a)"
| "getattr_token U t Attr_previous_token =
     (case previous_token t of None \<Rightarrow> PNone | Some a \<Rightarrow> PRef a)"
| "getattr_token U t Attr_subquery_level = PInt (subquery_level t)"
| "getattr_token U t Attr_is_in_nested_function = PBool (is_in_nested_function t)"
| "getattr_token U t Attr_is_subquery_start = PBool (is_subquery_start t)"
| "getattr_token U t Attr_is_subquery_end = PBool (is_subquery_end t)"
| "getattr_token U t Attr_is_with_query_start = PBool (is_with_query_start t)"
| "getattr_token U t Attr_is_with_query_end = PBool (is_with_query_end t)"
| "getattr_token U t Attr_is_with_columns_start = PBool (is_with_columns_start t)"
| "getattr_token U t Attr_is_with_columns_end = PBool (is_with_columns_end t)"
| "getattr_token U t Attr_is_nested_function_start = PBool (is_nested_function_start t)"
| "getattr_token U t Attr_is_nested_function_end = PBool (is_nested_function_end t)"
| "getattr_token U t Attr_is_column_definition_start = PBool (is_column_definition_start t)"
| "getattr_token U t Attr_is_column_definition_end = PBool (is_column_definition_end t)"
| "getattr_token U t Attr_normalized = PStr (normalized U t)"
| "getattr_token U t Attr_last_keyword_normalized = PStr (last_keyword_normalized U t)"

text \<open>The \<open>value\<close> argument: one value, or a list of values.\<close>

datatype value_arg = Scalar pyval | Listed "pyval list"

fun as_list :: "value_arg \<Rightarrow> pyval list" where
  "as_list (Scalar v) = [v]"
| "as_list (Listed vs) = vs"

text \<open>\<open>attribute = "previous_token" if direction == "left" else "next_token"\<close>, as the
  field \<open>getattr(token, attribute)\<close> reads.\<close>

definition link_of :: "string \<Rightarrow> SQLToken \<Rightarrow> addr option" where
  "link_of direction = (if direction = ''left'' then previous_token else next_token)"

text \<open>
  The \<open>while\<close> loop of \<open>find_nearest_token\<close>. On a store whose links form a cycle the
  loop of the source may run forever; not returning is the result \<open>None\<close> here.
\<close>

partial_function (option) find_nearest_loop ::
  "(string \<Rightarrow> string) \<Rightarrow> heap \<Rightarrow> (SQLToken \<Rightarrow> addr option) \<Rightarrow> attribute \<Rightarrow> pyval list
     \<Rightarrow> addr \<Rightarrow> addr option"
where
  "find_nearest_loop U h link value_attribute vs token =
     (case link (h token) of
        None \<Rightarrow> Some EmptyToken
      | Some n \<Rightarrow>
          if py_in (getattr_token U (h n) value_attribute) vs then Some n
          else find_nearest_loop U h link value_attribute vs n)"

definition find_nearest_token ::
  "(string \<Rightarrow> string) \<Rightarrow> heap \<Rightarrow> addr \<Rightarrow> value_arg \<Rightarrow> string \<Rightarrow> attribute \<Rightarrow> addr option"
where
  "find_nearest_token U h self v direction value_attribute =
     find_nearest_loop U h (link_of direction) value_attribute (as_list v) self"

text \<open>
  \<open>chain h link t ns\<close>: following \<open>link\<close> from the token at \<open>t\<close> visits exactly the
  tokens at \<open>ns\<close>, in this order, and the link of the last one visited is \<open>None\<close>. In a
  chain that the sentinel terminates, \<open>ns\<close> ends with \<open>EmptyToken\<close>.
\<close>

fun chain :: "heap \<Rightarrow> (SQLToken \<Rightarrow> addr option) \<Rightarrow> addr \<Rightarrow> addr list \<Rightarrow> bool" where
  "chain h link t [] = (link (h t) = None)"
| "chain h link t (n # ns) = (link (h t) = Some n \<and> chain h link n ns)"

text \<open>A chain that the sentinel terminates: the store holds the sentinel object at
  \<open>EmptyToken\<close>, and the walk from \<open>t\<close> ends there (\<open>t\<close> may be the sentinel itself).\<close>

definition sentinel_terminated ::
  "heap \<Rightarrow> (SQLToken \<Rightarrow> addr option) \<Rightarrow> addr \<Rightarrow> addr list \<Rightarrow> bool"
where
  "sentinel_terminated h link t ns =
     (chain h link t ns \<and> h EmptyToken = EmptyToken_object \<and> last (t # ns) = EmptyToken)"

section \<open>Derived properties\<close>

text \<open>
  \<open>left_expanded\<close>: the loop carries \<open>value\<close> and \<open>token\<close>. \<open>get_nth_previous\<close> always
  returns a token when it returns, and a token is truthy, so the test of the \<open>if\<close> inside
  the loop is the \<open>is_name\<close> flag of that token. The loop does not deepen the stack: each
  \<open>get_nth_previous(2)\<close> makes its two calls and returns, and is given the two frames
  they take.
\<close>

partial_function (option) left_expanded_loop ::
  "heap \<Rightarrow> string \<Rightarrow> addr \<Rightarrow> (error + string) option"
where
  "left_expanded_loop h v token =
     (case previous_token (h token) of
        None \<Rightarrow> Some (Inr v)
      | Some p \<Rightarrow>
          if is_dot (h p) then
            (case get_nth_previous 2 h token 2 of
               Inl e \<Rightarrow> Some (Inl e)
             | Inr q \<Rightarrow>
                 left_expanded_loop h
                   (if is_name (h q) then str_token (h q) @ ''.'' @ v else v) q)
          else Some (Inr v))"

definition left_expanded :: "heap \<Rightarrow> addr \<Rightarrow> (error + string) option" where
  "left_expanded h self =
     map_option (map_sum id (strip [backtick]))
       (left_expanded_loop h (str_token (h self)) self)"

text \<open>
  The walk of \<open>left_expanded\<close> as claim C5 words it, read off the list of the
  predecessors of the token, nearest first: while the nearest one is a dot, the one
  behind it gives \<open>"<name>."\<close> in front of the value when it is a name, and the walk goes
  on from that token. The loop above is compared with it.
\<close>

fun expand_left :: "heap \<Rightarrow> addr list \<Rightarrow> string \<Rightarrow> string" where
  "expand_left h (p # q # ns) v =
     (if is_dot (h p)
      then expand_left h ns (if is_name (h q) then str_token (h q) @ ''.'' @ v else v)
      else v)"
| "expand_left h ns v = v"

text \<open>\<open>table_prefixed_column(table_aliases)\<close>; the dictionary maps an alias to a table
  name.\<close>

definition prefix_column :: "(string \<rightharpoonup> string) \<Rightarrow> string \<Rightarrow> error + string" where
  "prefix_column table_aliases v =
     (if CHR ''.'' \<in> set v then
        (let parts = split_str (CHR ''.'') v in
         if length parts > 3 then Inl (ValueError (''Wrong columns name: '' @ v))
         else Inr (join_str ''.''
                (parts[0 := (case table_aliases (parts ! 0) of
                               Some name \<Rightarrow> name
                             | None \<Rightarrow> parts ! 0)])))
      else Inr v)"

definition table_prefixed_column ::
  "heap \<Rightarrow> addr \<Rightarrow> (string \<rightharpoonup> string) \<Rightarrow> (error + string) option"
where
  "table_prefixed_column h self table_aliases =
     (case left_expanded h self of
        None \<Rightarrow> None
      | Some (Inl e) \<Rightarrow> Some (Inl e)
      | Some (Inr v) \<Rightarrow> Some (prefix_column table_aliases v))"

text \<open>
  \<open>is_alias_without_as\<close>: \<open>and\<close> evaluates left to right and stops at the first false
  operand; reading \<open>normalized\<close> or \<open>is_comment\<close> through a link that is \<open>None\<close> raises
  \<open>AttributeError\<close>.
\<close>

definition is_alias_without_as ::
  "(string \<Rightarrow> string) \<Rightarrow> heap \<Rightarrow> addr \<Rightarrow> error + bool"
where
  "is_alias_without_as U h self =
     (case next_token (h self) of
        None \<Rightarrow> Inl AttributeError
      | Some n \<Rightarrow>
          if normalized U (h n) \<in> set ['','', ''FROM''] then
            (case previous_token (h self) of
               None \<Rightarrow> Inl AttributeError
             | Some p \<Rightarrow>
                 if normalized U (h p) \<notin> set ['','', ''.'', ''('', ''SELECT''] then
                   if last_keyword_normalized U (h self) = ''SELECT''
                   then Inr (\<not> is_comment (h p))
                   else Inr False
                 else Inr False)
          else Inr False)"

text \<open>\<open>stringified_token\<close>; \<open>FUNCTIONS_IGNORED\<close> is a constant of the module
  \<open>keywords_lists\<close>, taken as a parameter.\<close>

definition stringified_token ::
  "(string \<Rightarrow> string) \<Rightarrow> string set \<Rightarrow> heap \<Rightarrow> addr \<Rightarrow> string"
where
  "stringified_token U FUNCTIONS_IGNORED h self =
     (case previous_token (h self) of
        Some p \<Rightarrow>
          if normalized U (h self) \<in> set ['')'', ''.'', '','']
             \<or> normalized U (h p) \<in> set [''('', ''.'']
             \<or> (is_left_parenthesis (h self) \<and> normalized U (h p) \<in> FUNCTIONS_IGNORED)
          then str_token (h self)
          else '' '' @ str_token (h self)
      | None \<Rightarrow> str_token (h self))"

section \<open>Example token sequences\<close>

text \<open>
  Stores for the scenarios: the lexer tokens of a statement are built by \<open>__init__\<close> and
  linked in stream order, the first one keeping the sentinel as its predecessor and the
  last one as its successor. Address 0 holds the sentinel object.
\<close>

definition lexed :: "string \<Rightarrow> tokentype \<Rightarrow> Token" where
  "lexed v ty = \<lparr> raw_value = v, raw_is_keyword = False, ttype = ty \<rparr>"

definition lexed_keyword :: "string \<Rightarrow> Token" where
  "lexed_keyword v = \<lparr> raw_value = v, raw_is_keyword = True, ttype = [''Keyword''] \<rparr>"

definition linked :: "Token \<Rightarrow> int \<Rightarrow> string option \<Rightarrow> addr \<Rightarrow> addr \<Rightarrow> SQLToken" where
  "linked tok index keyword p n =
     (SQLToken_init (Some tok) index 0 keyword)
       \<lparr> next_token := Some n, previous_token := Some p \<rparr>"

definition empty_store :: heap where
  "empty_store = (\<lambda>_. EmptyToken_object)"

definition tokens_a_b_c :: heap where
  "tokens_a_b_c = empty_store
     (1 := linked (lexed ''a'' Name) 0 None 0 2,
      2 := linked (lexed ''.'' Punctuation) 1 None 1 3,
      3 := linked (lexed ''b'' Name) 2 None 2 4,
      4 := linked (lexed ''.'' Punctuation) 3 None 3 5,
      5 := linked (lexed ''c'' Name) 4 None 4 0)"

definition tokens_a_b_c_d :: heap where
  "tokens_a_b_c_d = empty_store
     (1 := linked (lexed ''a'' Name) 0 None 0 2,
      2 := linked (lexed ''.'' Punctuation) 1 None 1 3,
      3 := linked (lexed ''b'' Name) 2 None 2 4,
      4 := linked (lexed ''.'' Punctuation) 3 None 3 5,
      5 := linked (lexed ''c'' Name) 4 None 4 6,
      6 := linked (lexed ''.'' Punctuation) 5 None 5 7,
      7 := linked (lexed ''d'' Name) 6 None 6 0)"

definition tokens_al_col :: heap where
  "tokens_al_col = empty_store
     (1 := linked (lexed ''al'' Name) 0 None 0 2,
      2 := linked (lexed ''.'' Punctuation) 1 None 1 3,
      3 := linked (lexed ''col'' Name) 2 None 2 0)"

definition tokens_al :: heap where
  "tokens_al = empty_store (1 := linked (lexed ''al'' Name) 0 None 0 0)"

definition tokens_select_col_alias :: heap where
  "tokens_select_col_alias = empty_store
     (1 := linked (lexed_keyword ''SELECT'') 0 None 0 2,
      2 := linked (lexed ''col'' Name) 1 (Some ''SELECT'') 1 3,
      3 := linked (lexed ''alias'' Name) 2 (Some ''SELECT'') 2 4,
      4 := linked (lexed_keyword ''FROM'') 3 (Some ''SELECT'') 3 5,
      5 := linked (lexed ''t'' Name) 4 (Some ''FROM'') 4 0)"

definition tokens_select_a_b :: heap where
  "tokens_select_a_b = empty_store
     (1 := linked (lexed_keyword ''SELECT'') 0 None 0 2,
      2 := linked (lexed ''a'' Name) 1 (Some ''SELECT'') 1 3,
      3 := linked (lexed '','' Punctuation) 2 (Some ''SELECT'') 2 4,
      4 := linked (lexed ''b'' Name) 3 (Some ''SELECT'') 3 0)"

text \<open>A statement of \<open>n\<close> tokens, each the name \<open>x\<close>: the token at address \<open>a\<close> has the
  one at \<open>a - 1\<close> before it, the first one the sentinel.\<close>

definition long_statement :: "nat \<Rightarrow> heap" where
  "long_statement n =
     (\<lambda>a. if a = 0 \<or> n < a then EmptyToken_object
          else linked (lexed ''x'' Name) (int a - 1) (Some ''SELECT'') (a - 1)
                 (if a = n then 0 else a + 1))"

text \<open>One name token whose text is a backtick-quoted name inside double quotes, and one
  keyword token with a form feed between its two words.\<close>

definition quoted_backticked :: Token where
  "quoted_backticked = lexed [dquote, backtick, CHR ''a'', backtick, dquote] Name"

definition tokens_quoted :: heap where
  "tokens_quoted = empty_store (1 := linked quoted_backticked 0 None 0 0)"

definition group_formfeed_by :: Token where
  "group_formfeed_by = lexed_keyword (''GROUP'' @ [CHR 0x0C] @ ''BY'')"

section \<open>Construction\<close>

lemma strip_no_leading:
  "strip cs s \<noteq> [] \<Longrightarrow> hd (strip cs s) \<notin> set cs"
proof -
  let ?P = "\<lambda>c. c \<in> set cs"
  assume ne: "strip cs s \<noteq> []"
  define u where "u = dropWhile ?P s"
  define w where "w = dropWhile ?P (rev u)"
  have sw: "strip cs s = rev w"
    by (simp add: strip_def u_def w_def)
  with ne have wne: "w \<noteq> []" by simp
  then have une: "u \<noteq> []" by (auto simp: w_def)
  have hdu: "\<not> ?P (hd u)"
    using une unfolding u_def by (rule hd_dropWhile)
  have "rev u = takeWhile ?P (rev u) @ w"
    by (simp add: w_def)
  then have "u = rev w @ rev (takeWhile ?P (rev u))"
    by (metis rev_append rev_rev_ident)
  with wne have "hd u = hd (rev w)"
    by (metis hd_append2 rev_is_Nil_conv)
  with hdu sw show ?thesis by simp
qed

lemma strip_no_trailing:
  "strip cs s \<noteq> [] \<Longrightarrow> last (strip cs s) \<notin> set cs"
proof -
  let ?P = "\<lambda>c. c \<in> set cs"
  assume ne: "strip cs s \<noteq> []"
  define w where "w = dropWhile ?P (rev (dropWhile ?P s))"
  have sw: "strip cs s = rev w"
    by (simp add: strip_def w_def)
  with ne have wne: "w \<noteq> []" by simp
  then have "\<not> ?P (hd w)"
    unfolding w_def by (rule hd_dropWhile)
  with wne sw show ?thesis by (simp add: last_rev)
qed

text \<open>
  Claim C1. A token built from a lexer token has both links set to the sentinel's
  reference, never to \<open>None\<close>; a link of a freshly built token is \<open>None\<close> exactly when it
  was built without a lexer token; and the sentinel object has position \<open>-1\<close>, the empty
  value, every classification flag and every scope-role flag false, subquery level 0, no
  last keyword and both links \<open>None\<close>.
\<close>

theorem init_links_and_sentinel:
  "previous_token (SQLToken_init (Some t) index level keyword) = Some EmptyToken
   \<and> next_token (SQLToken_init (Some t) index level keyword) = Some EmptyToken
   \<and> (previous_token (SQLToken_init tok index level keyword) = None) = (tok = None)
   \<and> (next_token (SQLToken_init tok index level keyword) = None) = (tok = None)
   \<and> EmptyToken_object =
       \<lparr> position = - 1, value' = [],
         is_keyword = False, is_name = False, is_punctuation = False, is_dot = False,
         is_wildcard = False, is_integer = False, is_float = False, is_comment = False,
         is_left_parenthesis = False, is_right_parenthesis = False,
         last_keyword = None, next_token = None, previous_token = None,
         subquery_level = 0,
         is_in_nested_function = False,
         is_subquery_start = False, is_subquery_end = False,
         is_with_query_start = False, is_with_query_end = False,
         is_with_columns_start = False, is_with_columns_end = False,
         is_nested_function_start = False, is_nested_function_end = False,
         is_column_definition_start = False, is_column_definition_end = False \<rparr>"
  by (cases tok) (simp_all add: SQLToken_init_def EmptyToken_object_def)

lemma dropWhile_snoc_keep:
  "\<not> P x \<Longrightarrow> \<exists>ys. dropWhile P (zs @ [x]) = ys @ [x]"
  by (induction zs) auto

lemma strip_keeps_hd:
  assumes "s \<noteq> []" and "hd s \<notin> set cs"
  shows "strip cs s \<noteq> [] \<and> hd (strip cs s) = hd s"
proof -
  let ?P = "\<lambda>c. c \<in> set cs"
  from assms obtain x xs where s: "s = x # xs" and x: "\<not> ?P x"
    by (cases s) auto
  then have "dropWhile ?P s = s" by simp
  moreover from x obtain ys where "dropWhile ?P (rev xs @ [x]) = ys @ [x]"
    using dropWhile_snoc_keep [of ?P x "rev xs"] by blast
  ultimately have "strip cs s = x # rev ys"
    by (simp add: strip_def s)
  with s show ?thesis by simp
qed

lemma strip_keeps_last:
  assumes "s \<noteq> []" and "last s \<notin> set cs"
  shows "strip cs s \<noteq> [] \<and> last (strip cs s) = last s"
proof -
  let ?P = "\<lambda>c. c \<in> set cs"
  define u where "u = dropWhile ?P s"
  from assms have "\<exists>c \<in> set s. \<not> ?P c"
    using last_in_set by blast
  then have une: "u \<noteq> []"
    by (auto simp: u_def dropWhile_eq_Nil_conv)
  have "s = takeWhile ?P s @ u"
    by (simp add: u_def)
  with une have lu: "last u = last s"
    by (metis last_appendR)
  with assms une have "\<not> ?P (hd (rev u))"
    by (simp add: hd_rev)
  with une have "dropWhile ?P (rev u) = rev u"
    by (cases "rev u") auto
  then have "strip cs s = u"
    by (simp add: strip_def u_def)
  with une lu show ?thesis by simp
qed

lemma translate_delete:
  "translate (maketrans [] [] z) s = filter (\<lambda>c. c \<notin> set z) s"
  by (induction s) (simp_all add: translate_def maketrans_def)

lemma upper_char_not_deleted:
  "upper_char c \<in> set deleted_chars \<Longrightarrow> c \<in> set deleted_chars"
  by (auto simp: upper_char_def deleted_chars_def split: option.splits if_splits)

text \<open>
  Claim C4, as the code has it. The stored value is the lexer's text with its leading
  and trailing backticks removed and then its leading and trailing double quotes
  removed, once, at construction. So a non-empty value neither begins nor ends with a
  double quote; and it begins (ends) with a backtick only when the text without its
  outer backticks begins (ends) with a double quote, the one wrapping that the order of
  the two strips does not undo.
\<close>

theorem init_value_stripped:
  "value' (SQLToken_init (Some t) index level keyword)
     = strip [dquote] (strip [backtick] (raw_value t))
   \<and> (value' (SQLToken_init (Some t) index level keyword) \<noteq> [] \<longrightarrow>
        hd (value' (SQLToken_init (Some t) index level keyword)) \<noteq> dquote
        \<and> last (value' (SQLToken_init (Some t) index level keyword)) \<noteq> dquote
        \<and> (hd (value' (SQLToken_init (Some t) index level keyword)) = backtick \<longrightarrow>
             hd (strip [backtick] (raw_value t)) = dquote)
        \<and> (last (value' (SQLToken_init (Some t) index level keyword)) = backtick \<longrightarrow>
             last (strip [backtick] (raw_value t)) = dquote))"
proof -
  define u where "u = strip [backtick] (raw_value t)"
  define v where "v = strip [dquote] u"
  have val: "value' (SQLToken_init (Some t) index level keyword) = v"
    by (simp add: SQLToken_init_def u_def v_def)
  have "hd v \<noteq> dquote \<and> last v \<noteq> dquote
        \<and> (hd v = backtick \<longrightarrow> hd u = dquote) \<and> (last v = backtick \<longrightarrow> last u = dquote)"
    if ne: "v \<noteq> []"
  proof -
    from ne have une: "u \<noteq> []"
      by (auto simp: v_def strip_def)
    from ne have q: "hd v \<noteq> dquote" "last v \<noteq> dquote"
      using strip_no_leading [of "[dquote]" u] strip_no_trailing [of "[dquote]" u]
      by (simp_all add: v_def)
    from une have b: "hd u \<noteq> backtick" "last u \<noteq> backtick"
      using strip_no_leading [of "[backtick]" "raw_value t"]
        strip_no_trailing [of "[backtick]" "raw_value t"]
      by (simp_all add: u_def)
    have "hd u = dquote" if "hd v = backtick"
    proof (rule ccontr)
      assume "hd u \<noteq> dquote"
      with une have "hd v = hd u"
        using strip_keeps_hd [of u "[dquote]"] by (simp add: v_def)
      with that b show False by simp
    qed
    moreover have "last u = dquote" if "last v = backtick"
    proof (rule ccontr)
      assume "last u \<noteq> dquote"
      with une have "last v = last u"
        using strip_keeps_last [of u "[dquote]"] by (simp add: v_def)
      with that b show False by simp
    qed
    ultimately show ?thesis using q by blast
  qed
  then show ?thesis
    unfolding val by (simp add: v_def u_def)
qed

theorem init_value_stripped_witness:
  "value' (SQLToken_init (Some (lexed [backtick, backtick, CHR ''a'', dquote, backtick] Name))
             0 0 None) = [CHR ''a'']
   \<and> value' (SQLToken_init (Some quoted_backticked) 0 0 None) \<noteq> []
   \<and> hd (value' (SQLToken_init (Some quoted_backticked) 0 0 None)) = backtick
   \<and> hd (strip [backtick] (raw_value quoted_backticked)) = dquote
   \<and> last (strip [backtick] (raw_value quoted_backticked)) = dquote"
  using init_value_stripped
          [where t = "lexed [backtick, backtick, CHR ''a'', dquote, backtick] Name"
             and index = 0 and level = 0 and keyword = None]
        init_value_stripped
          [where t = quoted_backticked and index = 0 and level = 0 and keyword = None]
  by (simp add: quoted_backticked_def lexed_def strip_def dquote_def backtick_def)

text \<open>Claim C4 as stated fails on a backtick-quoted name inside double quotes: the
  backtick strip finds a double quote at both ends and removes nothing, the double-quote
  strip then uncovers the backticks, and they stay in the value.\<close>

theorem value_keeps_backticks_counterexample:
  "value' (SQLToken_init (Some quoted_backticked) 0 0 None) = [backtick, CHR ''a'', backtick]
   \<and> hd (value' (SQLToken_init (Some quoted_backticked) 0 0 None)) = backtick
   \<and> last (value' (SQLToken_init (Some quoted_backticked) 0 0 None)) = backtick"
  by (simp add: SQLToken_init_def quoted_backticked_def lexed_def strip_def
      dquote_def backtick_def)

lemma upper_ascii: "is_ascii s \<Longrightarrow> upper U s = map upper_char s"
  by (simp add: upper_def)

lemma is_ascii_filter: "is_ascii s \<Longrightarrow> is_ascii (filter P s)"
  by (simp add: is_ascii_def list_all_iff)

text \<open>
  Claim C9, as the code has it. \<open>normalized\<close> is \<open>str.upper\<close> of the value without its
  spaces, line feeds, tabs and carriage returns; no other character is removed before
  the case mapping. On an ASCII value the case mapping turns the letters a to z into
  capitals and changes nothing else, and none of the four characters is left.
  \<open>last_keyword_normalized\<close> is the same function of the last keyword, and the empty string
  when there is none.
\<close>

theorem normalized_spec:
  "normalized U t
     = upper U (filter (\<lambda>c. c \<notin> set [CHR 0x20, CHR 0x0A, CHR 0x09, CHR 0x0D]) (value' t))
   \<and> last_keyword_normalized U t =
       (case last_keyword t of
          None \<Rightarrow> []
        | Some k \<Rightarrow>
            upper U (filter (\<lambda>c. c \<notin> set [CHR 0x20, CHR 0x0A, CHR 0x09, CHR 0x0D]) k))
   \<and> (is_ascii (value' t) \<longrightarrow>
        normalized U t
          = map upper_char
              (filter (\<lambda>c. c \<notin> set [CHR 0x20, CHR 0x0A, CHR 0x09, CHR 0x0D]) (value' t))
        \<and> set (normalized U t) \<inter> set [CHR 0x20, CHR 0x0A, CHR 0x09, CHR 0x0D] = {})"
proof -
  have d: "[CHR 0x20, CHR 0x0A, CHR 0x09, CHR 0x0D] = deleted_chars"
    by (simp add: deleted_chars_def)
  have n: "normalized U t = upper U (filter (\<lambda>c. c \<notin> set deleted_chars) (value' t))"
    by (simp add: normalized_def translate_delete)
  have k: "last_keyword_normalized U t =
       (case last_keyword t of
          None \<Rightarrow> []
        | Some k \<Rightarrow> upper U (filter (\<lambda>c. c \<notin> set deleted_chars) k))"
    by (simp add: last_keyword_normalized_def translate_delete upper_def is_ascii_def
        split: option.splits)
  have a: "normalized U t = map upper_char (filter (\<lambda>c. c \<notin> set deleted_chars) (value' t))
        \<and> set (normalized U t) \<inter> set deleted_chars = {}"
    if asc: "is_ascii (value' t)"
  proof
    from asc show m: "normalized U t
        = map upper_char (filter (\<lambda>c. c \<notin> set deleted_chars) (value' t))"
      by (simp add: n upper_ascii is_ascii_filter)
    have "c \<notin> set deleted_chars" if "c \<in> set (normalized U t)" for c
    proof -
      from that obtain b where "b \<notin> set deleted_chars" and "c = upper_char b"
        by (auto simp: m)
      then show ?thesis
        using upper_char_not_deleted by blast
    qed
    then show "set (normalized U t) \<inter> set deleted_chars = {}"
      by blast
  qed
  show ?thesis
    unfolding d using n k a by blast
qed

theorem normalized_spec_witness:
  "is_ascii (value' (SQLToken_init (Some (lexed_keyword (''group'' @ [CHR 0x0A] @ '' by''))) 0 0
               (Some ''select'')))
   \<and> normalized (\<lambda>s. s)
        (SQLToken_init (Some (lexed_keyword (''group'' @ [CHR 0x0A] @ '' by''))) 0 0
           (Some ''select'')) = ''GROUPBY''
   \<and> last_keyword_normalized (\<lambda>s. s)
        (SQLToken_init (Some (lexed_keyword (''group'' @ [CHR 0x0A] @ '' by''))) 0 0
           (Some ''select'')) = ''SELECT''"
  using normalized_spec
          [where U = "\<lambda>s. s"
             and t = "SQLToken_init (Some (lexed_keyword (''group'' @ [CHR 0x0A] @ '' by''))) 0 0
                        (Some ''select'')"]
  by (simp add: SQLToken_init_def lexed_keyword_def strip_def dquote_def backtick_def
      is_ascii_def upper_def upper_char_def)

text \<open>Claim C9 as stated fails on a form feed, a whitespace character that is not one
  of the four: the keyword \<open>GROUP BY\<close> written with a form feed keeps it, whatever the
  case mapping outside ASCII is.\<close>

theorem normalized_keeps_formfeed_counterexample:
  "normalized (\<lambda>s. s) (SQLToken_init (Some group_formfeed_by) 0 0 None)
     = ''GROUP'' @ [CHR 0x0C] @ ''BY''
   \<and> isspace (CHR 0x0C)
   \<and> normalized (\<lambda>s. s) (SQLToken_init (Some group_formfeed_by) 0 0 None)
       \<noteq> upper (\<lambda>s. s) (filter (\<lambda>c. \<not> isspace c)
                  (value' (SQLToken_init (Some group_formfeed_by) 0 0 None)))"
  by (simp add: normalized_def SQLToken_init_def group_formfeed_by_def lexed_keyword_def
      strip_def dquote_def backtick_def translate_def maketrans_def deleted_chars_def
      upper_def upper_char_def isspace_def is_ascii_def)

section \<open>Traversal\<close>

lemma find_nearest_loop_chain:
  "chain h link t ns \<Longrightarrow>
   find_nearest_loop U h link a vs t =
     Some (case find (\<lambda>n. py_in (getattr_token U (h n) a) vs) ns of
             Some n \<Rightarrow> n
           | None \<Rightarrow> EmptyToken)"
proof (induction ns arbitrary: t)
  case Nil
  then show ?case by (subst find_nearest_loop.simps) simp
next
  case (Cons n ns)
  then show ?case by (subst find_nearest_loop.simps) simp
qed

lemma chain_unique:
  "chain h link t ns \<Longrightarrow> chain h link t ms \<Longrightarrow> ns = ms"
proof (induction ns arbitrary: t ms)
  case Nil
  then show ?case by (cases ms) simp_all
next
  case (Cons n ns)
  then show ?case by (cases ms) auto
qed

lemma chain_suffix:
  "chain h link t ns \<Longrightarrow> i < length ns \<Longrightarrow> chain h link (ns ! i) (drop (Suc i) ns)"
proof (induction ns arbitrary: t i)
  case Nil
  then show ?case by simp
next
  case (Cons n ns)
  show ?case
  proof (cases i)
    case 0
    with Cons.prems show ?thesis by simp
  next
    case (Suc j)
    with Cons.prems have "chain h link n ns" and "j < length ns"
      by simp_all
    then have "chain h link (ns ! j) (drop (Suc j) ns)"
      by (rule Cons.IH)
    with Suc show ?thesis by simp
  qed
qed

text \<open>A token is not among the tokens its own chain visits: the links would form a
  cycle, and the chain would not end.\<close>

lemma chain_not_self:
  assumes "chain h link t ns"
  shows "t \<notin> set ns"
proof
  assume "t \<in> set ns"
  then obtain i where i: "i < length ns" "ns ! i = t"
    by (auto simp: in_set_conv_nth)
  from chain_suffix [OF assms i(1)] i(2) have "chain h link t (drop (Suc i) ns)"
    by simp
  with assms have "ns = drop (Suc i) ns"
    by (rule chain_unique)
  moreover from i(1) have "length (drop (Suc i) ns) < length ns"
    by simp
  ultimately show False
    by (metis less_irrefl)
qed

lemma get_nth_previous_chain:
  "chain h previous_token t ns \<Longrightarrow> 1 \<le> level \<Longrightarrow>
   get_nth_previous frames h t level =
     (if frames < nat level \<and> frames \<le> length ns then Inl RecursionError
      else Inr (if nat level \<le> length ns then ns ! (nat level - 1) else EmptyToken))"
proof (induction ns arbitrary: t level frames)
  case Nil
  then show ?case by (subst get_nth_previous.simps) auto
next
  case (Cons n ns)
  show ?case
  proof (cases "frames = 0")
    case True
    with Cons.prems show ?thesis by (subst get_nth_previous.simps) simp
  next
    case f: False
    show ?thesis
    proof (cases "level > 1")
      case True
      with Cons.prems have c: "chain h previous_token n ns" and l: "1 \<le> level - 1"
        by simp_all
      from True obtain k where k: "nat level = Suc (Suc k)" "nat (level - 1) = Suc k"
        by (cases "nat level - 2") (auto simp: nat_diff_distrib intro: that [of "nat level - 2"])
      from f obtain g where g: "frames = Suc g"
        by (cases frames) auto
      from Cons.IH [OF c l, of g] Cons.prems True show ?thesis
        by (subst get_nth_previous.simps) (simp add: k g)
    next
      case False
      with Cons.prems have "level = 1" by simp
      with Cons.prems f show ?thesis by (subst get_nth_previous.simps) simp
    qed
  qed
qed

lemma get_nth_previous_total:
  "1 \<le> level \<Longrightarrow>
   (\<exists>r. get_nth_previous frames h t level = Inr r)
   \<or> get_nth_previous frames h t level = Inl RecursionError"
proof (induction frames h t level rule: get_nth_previous.induct)
  case (1 frames h self level)
  show ?case
  proof (cases "frames = 0")
    case True
    then show ?thesis by (subst (1 2) get_nth_previous.simps) simp
  next
    case f: False
    show ?thesis
    proof (cases "previous_token (h self)")
      case None
      with 1 f show ?thesis by (subst (1 2) get_nth_previous.simps) simp
    next
      case (Some p)
      show ?thesis
      proof (cases "level > 1")
        case True
        with 1 f Some
        have "(\<exists>r. get_nth_previous (frames - 1) h p (level - 1) = Inr r)
              \<or> get_nth_previous (frames - 1) h p (level - 1) = Inl RecursionError"
          by simp
        with True Some 1 f show ?thesis
          by (subst (1 2) get_nth_previous.simps) simp
      next
        case False
        with 1 f Some show ?thesis by (subst (1 2) get_nth_previous.simps) simp
      qed
    qed
  qed
qed

lemma long_statement_chain:
  "k \<le> n \<Longrightarrow> chain (long_statement n) previous_token k (rev [0..<k])"
proof (induction k)
  case 0
  show ?case
    by (simp add: long_statement_def EmptyToken_object_def SQLToken_init_def)
next
  case (Suc k)
  then have "chain (long_statement n) previous_token k (rev [0..<k])"
    by simp
  moreover from Suc.prems have "previous_token (long_statement n (Suc k)) = Some k"
    by (simp add: long_statement_def linked_def)
  ultimately show ?case by simp
qed

text \<open>The two chains of the store of \<open>a.b.c\<close> that the examples walk.\<close>

lemma tokens_a_b_c_previous: "chain tokens_a_b_c previous_token 5 [4, 3, 2, 1, 0]"
  by (simp add: tokens_a_b_c_def empty_store_def linked_def EmptyToken_object_def
      SQLToken_init_def)

lemma tokens_a_b_c_next: "chain tokens_a_b_c next_token 1 [2, 3, 4, 5, 0]"
  by (simp add: tokens_a_b_c_def empty_store_def linked_def EmptyToken_object_def
      SQLToken_init_def)

lemma tokens_a_b_c_values:
  "value' (tokens_a_b_c 0) = []" "value' (tokens_a_b_c (Suc 0)) = ''a''"
  "value' (tokens_a_b_c 2) = ''.''" "value' (tokens_a_b_c 3) = ''b''"
  "value' (tokens_a_b_c 4) = ''.''" "value' (tokens_a_b_c 5) = ''c''"
  by (simp_all add: tokens_a_b_c_def empty_store_def linked_def EmptyToken_object_def
      SQLToken_init_def lexed_def strip_def dquote_def backtick_def)

text \<open>
  Claim C2. When the tokens reached from \<open>t\<close> through \<open>previous_token\<close> (direction
  \<open>"left"\<close>) or \<open>next_token\<close> (direction \<open>"right"\<close>) are \<open>ns\<close>, ending at an absent link,
  \<open>find_nearest_token\<close> returns: its result is the first token of \<open>ns\<close> whose selected
  attribute is equal to the target value, or to a member of the target list, and the
  sentinel when no token of \<open>ns\<close> is. The function reads the store and writes nothing, and
  its result is this function of the store and the arguments, so a repeated call gives
  the same token; no path of it raises.
\<close>

theorem find_nearest_token_first_match:
  "(chain h previous_token t ns \<longrightarrow>
      find_nearest_token U h t v ''left'' a =
        Some (case find (\<lambda>n. py_in (getattr_token U (h n) a) (as_list v)) ns of
                Some n \<Rightarrow> n
              | None \<Rightarrow> EmptyToken))
   \<and> (chain h next_token t ns \<longrightarrow>
      find_nearest_token U h t v ''right'' a =
        Some (case find (\<lambda>n. py_in (getattr_token U (h n) a) (as_list v)) ns of
                Some n \<Rightarrow> n
              | None \<Rightarrow> EmptyToken))"
  by (simp add: find_nearest_token_def link_of_def find_nearest_loop_chain)

theorem find_nearest_token_first_match_witness:
  "chain tokens_a_b_c previous_token 5 [4, 3, 2, 1, 0]
   \<and> find_nearest_token (\<lambda>s. s) tokens_a_b_c 5 (Scalar (PStr ''a'')) ''left'' Attr_value
       = Some 1
   \<and> find_nearest_token (\<lambda>s. s) tokens_a_b_c 5 (Scalar (PStr ''x'')) ''left'' Attr_value
       = Some EmptyToken
   \<and> chain tokens_a_b_c next_token 1 [2, 3, 4, 5, 0]
   \<and> find_nearest_token (\<lambda>s. s) tokens_a_b_c 1 (Listed [PStr ''c'', PStr ''b'']) ''right''
         Attr_value
       = Some 3"
  using find_nearest_token_first_match
          [where U = "\<lambda>s. s" and h = tokens_a_b_c and t = 5 and ns = "[4, 3, 2, 1, 0]"
             and v = "Scalar (PStr ''a'')" and a = Attr_value]
        find_nearest_token_first_match
          [where U = "\<lambda>s. s" and h = tokens_a_b_c and t = 5 and ns = "[4, 3, 2, 1, 0]"
             and v = "Scalar (PStr ''x'')" and a = Attr_value]
        find_nearest_token_first_match
          [where U = "\<lambda>s. s" and h = tokens_a_b_c and t = 1 and ns = "[2, 3, 4, 5, 0]"
             and v = "Listed [PStr ''c'', PStr ''b'']" and a = Attr_value]
        tokens_a_b_c_previous tokens_a_b_c_next
  by (simp add: tokens_a_b_c_values py_in_def)

text \<open>
  Claim C3, as the code has it. With a level below 1 the assertion fails. With a level
  of at least 1 the call returns a token, never \<open>None\<close>, or raises \<open>RecursionError\<close>; it
  raises nothing else. When the predecessors of \<open>t\<close> are \<open>ns\<close>, ending at an absent link,
  the call makes one nested call per hop: if the frames left under the recursion limit
  cover the hops, the result is the \<open>level\<close>-th predecessor when there are that many, and
  the sentinel when the absent link is reached first; if the hops to make before the
  walk ends are more than the frames left, the call raises \<open>RecursionError\<close>.
\<close>

theorem get_nth_previous_spec:
  "(0 < frames \<and> level < 1 \<longrightarrow> get_nth_previous frames h t level = Inl AssertionError)
   \<and> (1 \<le> level \<longrightarrow>
        (\<exists>r. get_nth_previous frames h t level = Inr r)
        \<or> get_nth_previous frames h t level = Inl RecursionError)
   \<and> (chain h previous_token t ns \<and> 1 \<le> level \<and> nat level \<le> length ns
        \<and> nat level \<le> frames \<longrightarrow>
        get_nth_previous frames h t level = Inr (ns ! (nat level - 1)))
   \<and> (chain h previous_token t ns \<and> length ns < nat level \<and> length ns < frames \<longrightarrow>
        get_nth_previous frames h t level = Inr EmptyToken)
   \<and> (chain h previous_token t ns \<and> 1 \<le> level \<and> frames < nat level
        \<and> frames \<le> length ns \<longrightarrow>
        get_nth_previous frames h t level = Inl RecursionError)"
proof -
  have "0 < frames \<Longrightarrow> level < 1 \<Longrightarrow> get_nth_previous frames h t level = Inl AssertionError"
    by (subst get_nth_previous.simps) simp
  moreover have "1 \<le> level \<Longrightarrow>
      (\<exists>r. get_nth_previous frames h t level = Inr r)
      \<or> get_nth_previous frames h t level = Inl RecursionError"
    by (rule get_nth_previous_total)
  moreover have "chain h previous_token t ns \<Longrightarrow> 1 \<le> level \<Longrightarrow> nat level \<le> length ns \<Longrightarrow>
      nat level \<le> frames \<Longrightarrow> get_nth_previous frames h t level = Inr (ns ! (nat level - 1))"
    by (simp add: get_nth_previous_chain)
  moreover have "chain h previous_token t ns \<Longrightarrow> length ns < nat level \<Longrightarrow>
      length ns < frames \<Longrightarrow> get_nth_previous frames h t level = Inr EmptyToken"
    by (simp add: get_nth_previous_chain)
  moreover have "chain h previous_token t ns \<Longrightarrow> 1 \<le> level \<Longrightarrow> frames < nat level \<Longrightarrow>
      frames \<le> length ns \<Longrightarrow> get_nth_previous frames h t level = Inl RecursionError"
    by (simp add: get_nth_previous_chain)
  ultimately show ?thesis by blast
qed

theorem get_nth_previous_spec_witness:
  "get_nth_previous 1000 tokens_a_b_c 5 0 = Inl AssertionError
   \<and> chain tokens_a_b_c previous_token 5 [4, 3, 2, 1, 0]
   \<and> get_nth_previous 1000 tokens_a_b_c 5 2 = Inr 3
   \<and> get_nth_previous 1000 tokens_a_b_c 5 5 = Inr EmptyToken
   \<and> get_nth_previous 1000 tokens_a_b_c 5 6 = Inr EmptyToken
   \<and> get_nth_previous 3 tokens_a_b_c 5 4 = Inl RecursionError"
  using get_nth_previous_spec
          [where frames = 1000 and level = 0 and h = tokens_a_b_c and t = 5
             and ns = "[4, 3, 2, 1, 0]"]
        get_nth_previous_spec
          [where frames = 1000 and level = 2 and h = tokens_a_b_c and t = 5
             and ns = "[4, 3, 2, 1, 0]"]
        get_nth_previous_spec
          [where frames = 1000 and level = 5 and h = tokens_a_b_c and t = 5
             and ns = "[4, 3, 2, 1, 0]"]
        get_nth_previous_spec
          [where frames = 1000 and level = 6 and h = tokens_a_b_c and t = 5
             and ns = "[4, 3, 2, 1, 0]"]
        get_nth_previous_spec
          [where frames = 3 and level = 4 and h = tokens_a_b_c and t = 5
             and ns = "[4, 3, 2, 1, 0]"]
        tokens_a_b_c_previous
  by (simp add: EmptyToken_def)

text \<open>Claim C3 as stated fails on a long statement: from the last of 1500 tokens, with
  all 1000 frames of the default recursion limit free, the 1200th predecessor exists
  and the call for it raises \<open>RecursionError\<close>.\<close>

theorem get_nth_previous_recursion_counterexample:
  "chain (long_statement 1500) previous_token 1500 (rev [0..<1500])
   \<and> length (rev [0..<1500]) = 1500
   \<and> get_nth_previous 1000 (long_statement 1500) 1500 1200 = Inl RecursionError"
proof -
  have c: "chain (long_statement 1500) previous_token 1500 (rev [0..<1500])"
    by (rule long_statement_chain) simp
  from get_nth_previous_chain [OF c, of 1200 1000]
  have "get_nth_previous 1000 (long_statement 1500) 1500 1200 = Inl RecursionError"
    by simp
  with c show ?thesis by simp
qed

text \<open>
  Claim C10, as the code has it. The comparison starts at the neighbour: on every store,
  when the neighbour of \<open>t\<close> in the chosen direction has a matching attribute, that
  neighbour is the result; when the chain of \<open>t\<close> in that direction is \<open>ns\<close>, ending at an
  absent link, the result is the first matching token of \<open>ns\<close>, which starts at the
  neighbour and does not hold \<open>t\<close>, and the sentinel when there is none. So on a token
  other than the sentinel the result is not the token the call was made on, whatever
  that token's own attribute is. The direction is compared with \<open>"left"\<close> only: every
  other string, not only \<open>"right"\<close>, selects \<open>next_token\<close>.
\<close>

theorem find_nearest_token_direction:
  "(direction \<noteq> ''left'' \<longrightarrow>
      find_nearest_token U h t v direction a = find_nearest_token U h t v ''right'' a)
   \<and> ((if direction = ''left'' then previous_token else next_token) (h t) = Some n
        \<and> py_in (getattr_token U (h n) a) (as_list v) \<longrightarrow>
      find_nearest_token U h t v direction a = Some n)
   \<and> (chain h (if direction = ''left'' then previous_token else next_token) t ns \<longrightarrow>
      t \<notin> set ns
      \<and> find_nearest_token U h t v direction a =
          Some (case find (\<lambda>n. py_in (getattr_token U (h n) a) (as_list v)) ns of
                  Some n \<Rightarrow> n
                | None \<Rightarrow> EmptyToken))
   \<and> (chain h (if direction = ''left'' then previous_token else next_token) t ns
        \<and> t \<noteq> EmptyToken \<longrightarrow>
      (\<exists>r. find_nearest_token U h t v direction a = Some r \<and> r \<noteq> t))"
proof -
  let ?link = "if direction = ''left'' then previous_token else next_token"
  let ?P = "\<lambda>n. py_in (getattr_token U (h n) a) (as_list v)"
  have l: "link_of direction = ?link"
    by (simp add: link_of_def)
  have d: "find_nearest_token U h t v direction a = find_nearest_token U h t v ''right'' a"
    if "direction \<noteq> ''left''"
    using that by (simp add: find_nearest_token_def link_of_def)
  have i: "find_nearest_token U h t v direction a = Some n"
    if "?link (h t) = Some n" and "?P n"
    unfolding find_nearest_token_def l
    using that by (subst find_nearest_loop.simps) simp
  have c: "find_nearest_token U h t v direction a =
             Some (case find ?P ns of Some n \<Rightarrow> n | None \<Rightarrow> EmptyToken)"
    if "chain h ?link t ns"
    unfolding find_nearest_token_def l
    using that by (rule find_nearest_loop_chain)
  have s: "t \<notin> set ns" if "chain h ?link t ns"
    using that by (rule chain_not_self)
  have r: "\<exists>r. find_nearest_token U h t v direction a = Some r \<and> r \<noteq> t"
    if ch: "chain h ?link t ns" and t: "t \<noteq> EmptyToken"
  proof (cases "find ?P ns")
    case None
    with c [OF ch] t show ?thesis by simp
  next
    case (Some m)
    then have "m \<in> set ns"
      by (auto simp: find_Some_iff)
    with s [OF ch] have "m \<noteq> t" by auto
    with c [OF ch] Some show ?thesis by simp
  qed
  from d i c s r show ?thesis by blast
qed

theorem find_nearest_token_direction_witness:
  "''up'' \<noteq> ''left''
   \<and> find_nearest_token (\<lambda>s. s) tokens_a_b_c 1 (Scalar (PStr ''c'')) ''up'' Attr_value
       = find_nearest_token (\<lambda>s. s) tokens_a_b_c 1 (Scalar (PStr ''c'')) ''right'' Attr_value
   \<and> previous_token (tokens_a_b_c 5) = Some 4
   \<and> py_in (getattr_token (\<lambda>s. s) (tokens_a_b_c 4) Attr_value) (as_list (Scalar (PStr ''.'')))
   \<and> find_nearest_token (\<lambda>s. s) tokens_a_b_c 5 (Scalar (PStr ''.'')) ''left'' Attr_value
       = Some 4
   \<and> chain tokens_a_b_c previous_token 5 [4, 3, 2, 1, 0] \<and> 5 \<noteq> EmptyToken
   \<and> getattr_token (\<lambda>s. s) (tokens_a_b_c 5) Attr_value = PStr ''c''
   \<and> find_nearest_token (\<lambda>s. s) tokens_a_b_c 5 (Scalar (PStr ''c'')) ''left'' Attr_value
       = Some EmptyToken
   \<and> find_nearest_token (\<lambda>s. s) tokens_a_b_c 5 (Scalar (PStr ''b'')) ''left'' Attr_value
       = Some 3"
  using find_nearest_token_direction
          [where U = "\<lambda>s. s" and direction = "''up''" and h = tokens_a_b_c and t = 1
             and v = "Scalar (PStr ''c'')" and a = Attr_value and ns = "[]" and n = 0]
        find_nearest_token_direction
          [where U = "\<lambda>s. s" and direction = "''left''" and h = tokens_a_b_c and t = 5
             and ns = "[4, 3, 2, 1, 0]" and v = "Scalar (PStr ''.'')" and a = Attr_value
             and n = 4]
        find_nearest_token_direction
          [where U = "\<lambda>s. s" and direction = "''left''" and h = tokens_a_b_c and t = 5
             and ns = "[4, 3, 2, 1, 0]" and v = "Scalar (PStr ''c'')" and a = Attr_value
             and n = 4]
        find_nearest_token_direction
          [where U = "\<lambda>s. s" and direction = "''left''" and h = tokens_a_b_c and t = 5
             and ns = "[4, 3, 2, 1, 0]" and v = "Scalar (PStr ''b'')" and a = Attr_value
             and n = 4]
        tokens_a_b_c_previous
  by (simp add: tokens_a_b_c_values py_in_def EmptyToken_def)

text \<open>Claim C10 as stated fails: from the token \<open>a\<close> of \<open>a.b.c\<close>, whose only left
  neighbour is the sentinel, the direction \<open>"up"\<close> finds the token \<open>c\<close> to the right, where
  \<open>"left"\<close> finds nothing and returns the sentinel.\<close>

theorem direction_other_than_right_counterexample:
  "find_nearest_token (\<lambda>s. s) tokens_a_b_c 1 (Scalar (PStr ''c'')) ''up'' Attr_value = Some 5
   \<and> find_nearest_token (\<lambda>s. s) tokens_a_b_c 1 (Scalar (PStr ''c'')) ''right'' Attr_value
       = Some 5
   \<and> find_nearest_token (\<lambda>s. s) tokens_a_b_c 1 (Scalar (PStr ''c'')) ''left'' Attr_value
       = Some EmptyToken"
proof -
  have l: "chain tokens_a_b_c previous_token 1 [0]"
    by (simp add: tokens_a_b_c_def empty_store_def linked_def EmptyToken_object_def
        SQLToken_init_def)
  from find_nearest_loop_chain
         [OF tokens_a_b_c_next, of "\<lambda>s. s" Attr_value "[PStr ''c'']"]
  have r: "find_nearest_loop (\<lambda>s. s) tokens_a_b_c next_token Attr_value [PStr ''c''] 1
             = Some 5"
    by (simp add: tokens_a_b_c_values py_in_def)
  from find_nearest_loop_chain [OF l, of "\<lambda>s. s" Attr_value "[PStr ''c'']"]
  have "find_nearest_loop (\<lambda>s. s) tokens_a_b_c previous_token Attr_value [PStr ''c''] 1
          = Some EmptyToken"
    by (simp add: tokens_a_b_c_values py_in_def)
  with r show ?thesis
    by (simp add: find_nearest_token_def link_of_def)
qed

section \<open>Alias detection and reconstruction\<close>

lemma select_col_alias_tokens:
  "next_token (tokens_select_col_alias 3) = Some 4"
  "previous_token (tokens_select_col_alias 3) = Some 2"
  "next_token (tokens_select_col_alias 2) = Some 3"
  "previous_token (tokens_select_col_alias 2) = Some 1"
  "normalized U (tokens_select_col_alias (Suc 0)) = ''SELECT''"
  "normalized U (tokens_select_col_alias 2) = ''COL''"
  "normalized U (tokens_select_col_alias 3) = ''ALIAS''"
  "normalized U (tokens_select_col_alias 4) = ''FROM''"
  "last_keyword_normalized U (tokens_select_col_alias 2) = ''SELECT''"
  "last_keyword_normalized U (tokens_select_col_alias 3) = ''SELECT''"
  "\<not> is_comment (tokens_select_col_alias (Suc 0))"
  "\<not> is_comment (tokens_select_col_alias 2)"
  by (simp_all add: tokens_select_col_alias_def empty_store_def linked_def lexed_def
      lexed_keyword_def SQLToken_init_def normalized_def last_keyword_normalized_def
      translate_def maketrans_def deleted_chars_def upper_def upper_char_def is_ascii_def
      strip_def dquote_def backtick_def Name_def Comment_def parent_def)

text \<open>
  Claim C7. On every token of every store, \<open>is_alias_without_as\<close> returns true exactly
  when the token has a next and a previous token, its normalized last keyword is
  \<open>SELECT\<close>, the next token's normalized value is \<open>,\<close> or \<open>FROM\<close>, the previous token's
  normalized value is none of \<open>,\<close> \<open>.\<close> \<open>(\<close> \<open>SELECT\<close>, and the previous token is not a
  comment. On a token that has both neighbours the property returns a boolean, the
  conjunction of the four conditions.
\<close>

theorem is_alias_without_as_spec:
  "(is_alias_without_as U h t = Inr True) =
     (\<exists>n p. next_token (h t) = Some n \<and> previous_token (h t) = Some p
        \<and> last_keyword_normalized U (h t) = ''SELECT''
        \<and> normalized U (h n) \<in> {'','', ''FROM''}
        \<and> normalized U (h p) \<notin> {'','', ''.'', ''('', ''SELECT''}
        \<and> \<not> is_comment (h p))
   \<and> (next_token (h t) = Some n \<and> previous_token (h t) = Some p \<longrightarrow>
        is_alias_without_as U h t =
          Inr (last_keyword_normalized U (h t) = ''SELECT''
               \<and> normalized U (h n) \<in> {'','', ''FROM''}
               \<and> normalized U (h p) \<notin> {'','', ''.'', ''('', ''SELECT''}
               \<and> \<not> is_comment (h p)))"
  by (auto simp: is_alias_without_as_def split: option.splits)

theorem is_alias_without_as_spec_witness:
  "next_token (tokens_select_col_alias 3) = Some 4
   \<and> previous_token (tokens_select_col_alias 3) = Some 2
   \<and> is_alias_without_as (\<lambda>s. s) tokens_select_col_alias 3 = Inr True
   \<and> next_token (tokens_select_col_alias 2) = Some 3
   \<and> previous_token (tokens_select_col_alias 2) = Some 1
   \<and> is_alias_without_as (\<lambda>s. s) tokens_select_col_alias 2 = Inr False"
  using is_alias_without_as_spec [where U = "\<lambda>s. s" and h = tokens_select_col_alias and t = 3 and n = 4 and p = 2]
        is_alias_without_as_spec [where U = "\<lambda>s. s" and h = tokens_select_col_alias and t = 2 and n = 3 and p = 1]
  by (simp add: select_col_alias_tokens)

lemma select_a_b_tokens:
  "previous_token (tokens_select_a_b (Suc 0)) = Some 0"
  "previous_token (tokens_select_a_b 2) = Some 1"
  "previous_token (tokens_select_a_b 3) = Some 2"
  "previous_token (tokens_select_a_b 4) = Some 3"
  "normalized U (tokens_select_a_b 0) = []"
  "normalized U (tokens_select_a_b (Suc 0)) = ''SELECT''"
  "normalized U (tokens_select_a_b 2) = ''A''"
  "normalized U (tokens_select_a_b 3) = '',''"
  "normalized U (tokens_select_a_b 4) = ''B''"
  "str_token (tokens_select_a_b (Suc 0)) = ''SELECT''"
  "str_token (tokens_select_a_b 2) = ''a''"
  "str_token (tokens_select_a_b 3) = '',''"
  "str_token (tokens_select_a_b 4) = ''b''"
  "\<not> is_left_parenthesis (tokens_select_a_b (Suc 0))"
  "\<not> is_left_parenthesis (tokens_select_a_b 2)"
  "\<not> is_left_parenthesis (tokens_select_a_b 3)"
  "\<not> is_left_parenthesis (tokens_select_a_b 4)"
  by (simp_all add: tokens_select_a_b_def empty_store_def linked_def lexed_def
      lexed_keyword_def SQLToken_init_def EmptyToken_object_def normalized_def str_token_def
      translate_def maketrans_def deleted_chars_def upper_def upper_char_def is_ascii_def
      strip_def dquote_def backtick_def)

text \<open>The fragments of \<open>SELECT a,b\<close>, whatever the ignore-list is: it is read only at a
  left parenthesis.\<close>

lemma select_a_b_fragments:
  "map (stringified_token U F tokens_select_a_b) [1, 2, 3, 4]
     = ['' SELECT'', '' a'', '','', '' b'']"
  by (simp add: stringified_token_def select_a_b_tokens)

text \<open>
  Claim C8, as the code has it. A token that has a previous token is emitted without a
  leading space exactly when its normalized value is \<open>)\<close>, \<open>.\<close> or \<open>,\<close>, or the previous
  token's normalized value is \<open>(\<close> or \<open>.\<close>, or it is a left parenthesis and the previous
  token's normalized value is in the ignore-list; otherwise one space comes first. A
  token whose previous link is absent is emitted as it is. The first token of a
  statement has the sentinel before it, whose normalized value is empty, so it gets the
  space, and so does a token that follows a comma.
\<close>

theorem stringified_token_spec:
  "(previous_token (h t) = Some p \<longrightarrow>
      stringified_token U F h t =
        (if normalized U (h t) \<in> {'')'', ''.'', '',''}
            \<or> normalized U (h p) \<in> {''('', ''.''}
            \<or> (is_left_parenthesis (h t) \<and> normalized U (h p) \<in> F)
         then str_token (h t)
         else '' '' @ str_token (h t)))
   \<and> (previous_token (h t) = None \<longrightarrow> stringified_token U F h t = str_token (h t))
   \<and> (h EmptyToken = EmptyToken_object \<and> previous_token (h t) = Some EmptyToken
        \<and> normalized U (h t) \<notin> {'')'', ''.'', '',''} \<and> \<not> is_left_parenthesis (h t) \<longrightarrow>
        stringified_token U F h t = '' '' @ str_token (h t))"
proof -
  have "normalized U EmptyToken_object = []"
    by (simp add: normalized_def EmptyToken_object_def SQLToken_init_def translate_def upper_def
        is_ascii_def)
  then show ?thesis
    by (auto simp: stringified_token_def)
qed

theorem stringified_token_spec_witness:
  "previous_token (tokens_select_a_b 3) = Some 2
   \<and> stringified_token (\<lambda>s. s) {} tokens_select_a_b 3 = '',''
   \<and> previous_token (tokens_select_a_b 4) = Some 3
   \<and> stringified_token (\<lambda>s. s) {} tokens_select_a_b 4 = '' b''
   \<and> previous_token (tokens_select_a_b 0) = None
   \<and> stringified_token (\<lambda>s. s) {} tokens_select_a_b 0 = []
   \<and> tokens_select_a_b EmptyToken = EmptyToken_object
   \<and> previous_token (tokens_select_a_b 1) = Some EmptyToken
   \<and> stringified_token (\<lambda>s. s) {} tokens_select_a_b 1 = '' SELECT''"
  using stringified_token_spec [where U = "\<lambda>s. s" and h = tokens_select_a_b and t = 3 and p = 2 and F = "{}"]
        stringified_token_spec [where U = "\<lambda>s. s" and h = tokens_select_a_b and t = 4 and p = 3 and F = "{}"]
        stringified_token_spec [where U = "\<lambda>s. s" and h = tokens_select_a_b and t = 0 and p = 0 and F = "{}"]
        stringified_token_spec [where U = "\<lambda>s. s" and h = tokens_select_a_b and t = 1 and p = 0 and F = "{}"]
  by (simp add: select_a_b_tokens EmptyToken_def)
    (simp add: tokens_select_a_b_def empty_store_def EmptyToken_object_def SQLToken_init_def
      str_token_def strip_def)

text \<open>Claim C8 as stated fails in its scenario: concatenating \<open>stringified_token\<close> over
  the four tokens of \<open>SELECT a,b\<close> puts no space before the comma, but one before each
  of the other three tokens, the first one and the one after the comma included.\<close>

theorem select_a_b_spaces_counterexample:
  "concat (map (stringified_token (\<lambda>s. s) {} tokens_select_a_b) [1, 2, 3, 4]) = '' SELECT a, b''
   \<and> concat (map (stringified_token (\<lambda>s. s) {} tokens_select_a_b) [1, 2, 3, 4]) \<noteq> ''SELECT a,b''"
  unfolding select_a_b_fragments by simp

section \<open>Dotted names\<close>

lemma strip_id:
  assumes "s = [] \<or> (hd s \<notin> set cs \<and> last s \<notin> set cs)"
  shows "strip cs s = s"
proof (cases "s = []")
  case True
  then show ?thesis by (simp add: strip_def)
next
  case False
  with assms have h: "hd s \<notin> set cs" and l: "last s \<notin> set cs"
    by simp_all
  from False h have "dropWhile (\<lambda>c. c \<in> set cs) s = s"
    by (cases s) auto
  moreover from False l have "dropWhile (\<lambda>c. c \<in> set cs) (rev s) = rev s"
    by (cases "rev s") (auto simp: hd_rev [symmetric])
  ultimately show ?thesis
    by (simp add: strip_def)
qed

lemma left_expanded_loop_chain:
  "sentinel_terminated h previous_token t ns \<Longrightarrow>
   left_expanded_loop h v t = Some (Inr (expand_left h ns v))"
proof (induction ns arbitrary: t v rule: induct_list012)
  case 1
  then have "chain h previous_token t []"
    unfolding sentinel_terminated_def by (rule conjunct1)
  then have "previous_token (h t) = None"
    by simp
  then show ?case
    by (subst left_expanded_loop.simps) simp
next
  case (2 p)
  then have "previous_token (h t) = Some p" and "h p = EmptyToken_object"
    by (auto simp: sentinel_terminated_def)
  then show ?case
    by (subst left_expanded_loop.simps)
      (simp add: EmptyToken_object_def SQLToken_init_def)
next
  case (3 p q zs)
  from 3(3) have t: "previous_token (h t) = Some p"
    and c: "chain h previous_token t (p # q # zs)"
    and q: "sentinel_terminated h previous_token q zs"
    by (auto simp: sentinel_terminated_def)
  from get_nth_previous_chain [OF c, where level = 2 and frames = 2]
  have g: "get_nth_previous 2 h t 2 = Inr q"
    by simp
  show ?case
  proof (cases "is_dot (h p)")
    case True
    with t g 3(1) [OF q] show ?thesis
      by (subst left_expanded_loop.simps) simp
  next
    case False
    with t show ?thesis
      by (subst left_expanded_loop.simps) simp
  qed
qed

lemma left_expanded_chain:
  "sentinel_terminated h previous_token t ns \<Longrightarrow>
   left_expanded h t = Some (Inr (strip [backtick] (expand_left h ns (str_token (h t)))))"
  by (simp add: left_expanded_def left_expanded_loop_chain)

lemma left_expanded_no_dot:
  assumes "\<not> (\<exists>p. previous_token (h t) = Some p \<and> is_dot (h p))"
  shows "left_expanded h t = Some (Inr (strip [backtick] (str_token (h t))))"
proof -
  from assms have "left_expanded_loop h v t = Some (Inr v)" for v
    by (subst left_expanded_loop.simps) (simp split: option.splits)
  then show ?thesis
    by (simp add: left_expanded_def)
qed

text \<open>\<open>split\<close> and \<open>join\<close> with the same separator.\<close>

lemma split_str_not_Nil: "split_str sep s \<noteq> []"
  by (induction s) (simp_all add: Let_def)

lemma length_split_str:
  "length (split_str sep s) = Suc (length (filter (\<lambda>c. c = sep) s))"
proof (induction s)
  case Nil
  show ?case by simp
next
  case (Cons c cs)
  moreover have "length (tl (split_str sep cs)) = length (split_str sep cs) - 1"
    by simp
  ultimately show ?case
    by (simp add: Let_def)
qed

lemma hd_split_str: "hd (split_str sep s) = takeWhile (\<lambda>c. c \<noteq> sep) s"
  by (induction s) (simp_all add: Let_def)

lemma join_str_Cons:
  "join_str sep (x # xs) = x @ (if xs = [] then [] else sep @ join_str sep xs)"
  by (cases xs) simp_all

lemma join_split_str: "join_str [sep] (split_str sep s) = s"
proof (induction s)
  case Nil
  show ?case by simp
next
  case (Cons c cs)
  obtain x xs where r: "split_str sep cs = x # xs"
    using split_str_not_Nil [of sep cs] by (cases "split_str sep cs") auto
  with Cons show ?case
    by (simp add: Let_def join_str_Cons)
qed

lemma join_tl_split_str:
  "sep \<in> set s \<Longrightarrow>
   tl (split_str sep s) \<noteq> []
   \<and> sep # join_str [sep] (tl (split_str sep s)) = dropWhile (\<lambda>c. c \<noteq> sep) s"
proof (induction s)
  case Nil
  then show ?case by simp
next
  case (Cons c cs)
  show ?case
  proof (cases "c = sep")
    case True
    then show ?thesis
      by (simp add: Let_def join_split_str split_str_not_Nil)
  next
    case False
    with Cons show ?thesis
      by (simp add: Let_def)
  qed
qed

lemma prefix_column_eq:
  "prefix_column aliases v =
     (if 3 < length (split_str (CHR ''.'') v)
      then Inl (ValueError (''Wrong columns name: '' @ v))
      else if CHR ''.'' \<notin> set v then Inr v
      else case aliases (takeWhile (\<lambda>c. c \<noteq> CHR ''.'') v) of
             Some name \<Rightarrow> Inr (name @ dropWhile (\<lambda>c. c \<noteq> CHR ''.'') v)
           | None \<Rightarrow> Inr v)"
proof (cases "CHR ''.'' \<in> set v")
  case False
  then have "filter (\<lambda>c. c = CHR ''.'') v = []"
    by (auto simp: filter_empty_conv)
  with False show ?thesis
    by (simp add: prefix_column_def length_split_str)
next
  case True
  obtain x xs where r: "split_str (CHR ''.'') v = x # xs"
    using split_str_not_Nil [of "CHR ''.''" v] by (cases "split_str (CHR ''.'') v") auto
  from r have x: "x = takeWhile (\<lambda>c. c \<noteq> CHR ''.'') v"
    using hd_split_str [of "CHR ''.''" v] by simp
  from join_tl_split_str [OF True] r
  have xs: "xs \<noteq> []" and d: "CHR ''.'' # join_str ''.'' xs = dropWhile (\<lambda>c. c \<noteq> CHR ''.'') v"
    by simp_all
  have j: "join_str ''.'' (y # xs) = y @ dropWhile (\<lambda>c. c \<noteq> CHR ''.'') v" for y
    using xs d by (simp add: join_str_Cons)
  have "x @ dropWhile (\<lambda>c. c \<noteq> CHR ''.'') v = v"
    by (simp add: x)
  with True r j show ?thesis
    by (simp add: prefix_column_def Let_def x [symmetric] split: option.splits)
qed

text \<open>The chains and the left-expanded values of the examples.\<close>

lemma tokens_a_b_c_terminated:
  "sentinel_terminated tokens_a_b_c previous_token 5 [4, 3, 2, 1, 0]"
  by (simp add: sentinel_terminated_def tokens_a_b_c_def empty_store_def linked_def
      EmptyToken_object_def SQLToken_init_def EmptyToken_def)

lemma tokens_a_b_c_left_expanded: "left_expanded tokens_a_b_c 5 = Some (Inr ''a.b.c'')"
  using left_expanded_chain [OF tokens_a_b_c_terminated]
  by (simp add: tokens_a_b_c_def empty_store_def linked_def lexed_def SQLToken_init_def
      EmptyToken_object_def str_token_def strip_def dquote_def backtick_def
      Name_def Punctuation_def)

lemma tokens_al_col_terminated:
  "sentinel_terminated tokens_al_col previous_token 3 [2, 1, 0]"
  by (simp add: sentinel_terminated_def tokens_al_col_def empty_store_def linked_def
      EmptyToken_object_def SQLToken_init_def EmptyToken_def)

lemma tokens_al_col_left_expanded: "left_expanded tokens_al_col 3 = Some (Inr ''al.col'')"
  using left_expanded_chain [OF tokens_al_col_terminated]
  by (simp add: tokens_al_col_def empty_store_def linked_def lexed_def SQLToken_init_def
      EmptyToken_object_def str_token_def strip_def dquote_def backtick_def
      Name_def Punctuation_def)

lemma tokens_a_b_c_d_terminated:
  "sentinel_terminated tokens_a_b_c_d previous_token 7 [6, 5, 4, 3, 2, 1, 0]"
  by (simp add: sentinel_terminated_def tokens_a_b_c_d_def empty_store_def linked_def
      EmptyToken_object_def SQLToken_init_def EmptyToken_def)

lemma tokens_a_b_c_d_left_expanded:
  "left_expanded tokens_a_b_c_d 7 = Some (Inr ''a.b.c.d'')"
  using left_expanded_chain [OF tokens_a_b_c_d_terminated]
  by (simp add: tokens_a_b_c_d_def empty_store_def linked_def lexed_def SQLToken_init_def
      EmptyToken_object_def str_token_def strip_def dquote_def backtick_def
      Name_def Punctuation_def)

lemma tokens_al_terminated: "sentinel_terminated tokens_al previous_token 1 [0]"
  by (simp add: sentinel_terminated_def tokens_al_def empty_store_def linked_def
      EmptyToken_object_def SQLToken_init_def EmptyToken_def)

lemma tokens_al_left_expanded: "left_expanded tokens_al 1 = Some (Inr ''al'')"
  using left_expanded_chain [OF tokens_al_terminated]
  by (simp add: tokens_al_def empty_store_def linked_def lexed_def SQLToken_init_def
      EmptyToken_object_def str_token_def strip_def dquote_def backtick_def)

lemma tokens_quoted_fields:
  "previous_token (tokens_quoted (Suc 0)) = Some 0"
  "\<not> is_dot (tokens_quoted 0)"
  "value' (tokens_quoted (Suc 0)) = [backtick, CHR ''a'', backtick]"
  by (simp_all add: tokens_quoted_def empty_store_def linked_def quoted_backticked_def
      lexed_def SQLToken_init_def EmptyToken_object_def strip_def dquote_def backtick_def)

text \<open>
  Claim C5, as the code has it. On a chain of predecessors that the sentinel terminates
  the walk ends, and \<open>left_expanded\<close> is what the claim's walk gives, with the backticks at
  both ends of the result removed: while the nearest predecessor is a dot, \<open>"<name>."\<close>
  of the token behind it goes in front when that token is a name, and the walk goes on
  from that token. On a token whose predecessor is not a dot the result is the token's
  value with the double quotes and then the backticks at its ends removed; it is the
  value itself when the value neither begins nor ends with a backtick or double quote.
\<close>

theorem left_expanded_spec:
  "(sentinel_terminated h previous_token t ns \<longrightarrow>
      left_expanded h t =
        Some (Inr (strip [backtick] (expand_left h ns (str_token (h t))))))
   \<and> (\<not> (\<exists>p. previous_token (h t) = Some p \<and> is_dot (h p)) \<longrightarrow>
      left_expanded h t =
        Some (Inr (strip [backtick] (strip [dquote] (value' (h t))))))
   \<and> (\<not> (\<exists>p. previous_token (h t) = Some p \<and> is_dot (h p))
        \<and> (value' (h t) = []
             \<or> (hd (value' (h t)) \<notin> {backtick, dquote}
                 \<and> last (value' (h t)) \<notin> {backtick, dquote})) \<longrightarrow>
      left_expanded h t = Some (Inr (value' (h t))))"
proof -
  have "strip [backtick] (strip [dquote] s) = s"
    if "s = [] \<or> (hd s \<notin> {backtick, dquote} \<and> last s \<notin> {backtick, dquote})" for s
    using that strip_id [of s "[dquote]"] strip_id [of s "[backtick]"] by auto
  then show ?thesis
    using left_expanded_no_dot [of h t]
    by (auto simp: left_expanded_chain str_token_def)
qed

theorem left_expanded_spec_witness:
  "sentinel_terminated tokens_a_b_c previous_token 5 [4, 3, 2, 1, 0]
   \<and> left_expanded tokens_a_b_c 5 = Some (Inr ''a.b.c'')
   \<and> \<not> (\<exists>p. previous_token (tokens_al 1) = Some p \<and> is_dot (tokens_al p))
   \<and> hd (value' (tokens_al 1)) \<notin> {backtick, dquote}
   \<and> last (value' (tokens_al 1)) \<notin> {backtick, dquote}
   \<and> left_expanded tokens_al 1 = Some (Inr (value' (tokens_al 1)))
   \<and> value' (tokens_al 1) = ''al''"
proof -
  have a: "strip [backtick] (expand_left tokens_a_b_c [4, 3, 2, 1, 0]
             (str_token (tokens_a_b_c 5))) = ''a.b.c''"
    using left_expanded_chain [OF tokens_a_b_c_terminated] tokens_a_b_c_left_expanded
    by simp
  have f: "previous_token (tokens_al 1) = Some 0" "\<not> is_dot (tokens_al 0)"
    "value' (tokens_al 1) = ''al''"
    by (simp_all add: tokens_al_def empty_store_def linked_def lexed_def SQLToken_init_def
        EmptyToken_object_def strip_def dquote_def backtick_def)
  have n: "\<not> (\<exists>p. previous_token (tokens_al 1) = Some p \<and> is_dot (tokens_al p))"
    using f by simp
  have q: "hd (value' (tokens_al 1)) \<notin> {backtick, dquote}"
    "last (value' (tokens_al 1)) \<notin> {backtick, dquote}"
    unfolding f by (simp_all add: dquote_def backtick_def)
  from left_expanded_spec
         [where h = tokens_a_b_c and t = 5 and ns = "[4, 3, 2, 1, 0]"]
       tokens_a_b_c_terminated a
  have "left_expanded tokens_a_b_c 5 = Some (Inr ''a.b.c'')"
    by simp
  moreover from left_expanded_spec [where h = tokens_al and t = 1 and ns = "[]"] n q
  have "left_expanded tokens_al 1 = Some (Inr (value' (tokens_al 1)))"
    by blast
  ultimately show ?thesis
    using tokens_a_b_c_terminated n q f(3) by blast
qed

text \<open>Claim C5 as stated fails in its last part on the token of the backtick-quoted
  name inside double quotes: its predecessor is the sentinel, not a dot, its value keeps
  the backticks, and \<open>left_expanded\<close> removes them.\<close>

theorem left_expanded_not_value_counterexample:
  "previous_token (tokens_quoted 1) = Some 0
   \<and> \<not> is_dot (tokens_quoted 0)
   \<and> value' (tokens_quoted 1) = [backtick, CHR ''a'', backtick]
   \<and> left_expanded tokens_quoted 1 = Some (Inr ''a'')
   \<and> left_expanded tokens_quoted 1 \<noteq> Some (Inr (value' (tokens_quoted 1)))"
proof -
  have "\<not> (\<exists>p. previous_token (tokens_quoted 1) = Some p \<and> is_dot (tokens_quoted p))"
    using tokens_quoted_fields by simp
  from left_expanded_no_dot [OF this]
  have "left_expanded tokens_quoted 1 = Some (Inr ''a'')"
    by (simp add: str_token_def tokens_quoted_fields strip_def dquote_def backtick_def)
  then show ?thesis
    using tokens_quoted_fields by (simp add: backtick_def)
qed

text \<open>
  Claim C6, as the code has it. On a chain of predecessors that the sentinel terminates
  \<open>left_expanded\<close> returns a value \<open>v\<close>, and \<open>table_prefixed_column\<close> raises the
  \<open>ValueError\<close> exactly when \<open>v\<close> has more than three dot-separated segments. Otherwise a
  \<open>v\<close> without a dot is returned as it is, also when it is an alias of the mapping; in a
  \<open>v\<close> with a dot the first segment is replaced by what the mapping gives for it, the
  rest of \<open>v\<close> from its first dot on is kept, and \<open>v\<close> is returned as it is when the
  mapping has no entry for the first segment.
\<close>

theorem table_prefixed_column_spec:
  "sentinel_terminated h previous_token t ns \<longrightarrow>
     (\<exists>v. left_expanded h t = Some (Inr v)
        \<and> table_prefixed_column h t aliases =
            Some (if 3 < length (split_str (CHR ''.'') v)
                  then Inl (ValueError (''Wrong columns name: '' @ v))
                  else if CHR ''.'' \<notin> set v then Inr v
                  else case aliases (takeWhile (\<lambda>c. c \<noteq> CHR ''.'') v) of
                         Some name \<Rightarrow> Inr (name @ dropWhile (\<lambda>c. c \<noteq> CHR ''.'') v)
                       | None \<Rightarrow> Inr v)
        \<and> ((\<exists>e. table_prefixed_column h t aliases = Some (Inl e))
             = (3 < length (split_str (CHR ''.'') v))))"
proof
  assume "sentinel_terminated h previous_token t ns"
  then obtain v where v: "left_expanded h t = Some (Inr v)"
    using left_expanded_chain by blast
  then have tpc: "table_prefixed_column h t aliases = Some (prefix_column aliases v)"
    by (simp add: table_prefixed_column_def)
  have "(\<exists>e. prefix_column aliases v = Inl e) = (3 < length (split_str (CHR ''.'') v))"
    by (simp add: prefix_column_eq split: option.splits)
  with v tpc show "\<exists>v. left_expanded h t = Some (Inr v)
        \<and> table_prefixed_column h t aliases =
            Some (if 3 < length (split_str (CHR ''.'') v)
                  then Inl (ValueError (''Wrong columns name: '' @ v))
                  else if CHR ''.'' \<notin> set v then Inr v
                  else case aliases (takeWhile (\<lambda>c. c \<noteq> CHR ''.'') v) of
                         Some name \<Rightarrow> Inr (name @ dropWhile (\<lambda>c. c \<noteq> CHR ''.'') v)
                       | None \<Rightarrow> Inr v)
        \<and> ((\<exists>e. table_prefixed_column h t aliases = Some (Inl e))
             = (3 < length (split_str (CHR ''.'') v)))"
    using prefix_column_eq [of aliases v] by auto
qed

theorem table_prefixed_column_spec_witness:
  "sentinel_terminated tokens_al_col previous_token 3 [2, 1, 0]
   \<and> table_prefixed_column tokens_al_col 3 [''al'' \<mapsto> ''orders''] = Some (Inr ''orders.col'')
   \<and> table_prefixed_column tokens_al_col 3 [''x'' \<mapsto> ''orders''] = Some (Inr ''al.col'')
   \<and> sentinel_terminated tokens_a_b_c_d previous_token 7 [6, 5, 4, 3, 2, 1, 0]
   \<and> table_prefixed_column tokens_a_b_c_d 7 [''a'' \<mapsto> ''orders'']
       = Some (Inl (ValueError ''Wrong columns name: a.b.c.d''))"
  using table_prefixed_column_spec
          [where h = tokens_al_col and t = 3 and ns = "[2, 1, 0]"
             and aliases = "[''al'' \<mapsto> ''orders'']"]
        table_prefixed_column_spec
          [where h = tokens_al_col and t = 3 and ns = "[2, 1, 0]"
             and aliases = "[''x'' \<mapsto> ''orders'']"]
        table_prefixed_column_spec
          [where h = tokens_a_b_c_d and t = 7 and ns = "[6, 5, 4, 3, 2, 1, 0]"
             and aliases = "[''a'' \<mapsto> ''orders'']"]
        tokens_al_col_terminated tokens_a_b_c_d_terminated
  by (simp add: tokens_al_col_left_expanded tokens_a_b_c_d_left_expanded Let_def)

text \<open>Claim C6 as stated fails on a name without a dot that is an alias of the
  mapping: its one segment is not rewritten.\<close>

theorem undotted_alias_kept_counterexample:
  "left_expanded tokens_al 1 = Some (Inr ''al'')
   \<and> split_str (CHR ''.'') ''al'' = [''al'']
   \<and> table_prefixed_column tokens_al 1 [''al'' \<mapsto> ''orders''] = Some (Inr ''al'')
   \<and> table_prefixed_column tokens_al 1 [''al'' \<mapsto> ''orders''] \<noteq> Some (Inr ''orders'')"
  using tokens_al_left_expanded
  by (simp add: table_prefixed_column_def prefix_column_def Let_def)

end
